theory Spec2Isabelle
  imports Main "HOL-Library.Sublist"
begin

section \<open>Values, errors and responses\<close>

text \<open>
  The value of \<^verbatim>\<open>r.json()\<close>: a Python object built from \<^verbatim>\<open>dict\<close>, \<^verbatim>\<open>list\<close>,
  \<^verbatim>\<open>str\<close>, \<^verbatim>\<open>int\<close>, \<^verbatim>\<open>float\<close>, \<^verbatim>\<open>bool\<close> and \<^verbatim>\<open>None\<close>.
  A dict is an association list read with \<open>map_of\<close>. The script never computes with
  a number, so a float is carried as an opaque pair (mantissa, exponent).
  A character is one code point below 256.
\<close>

datatype json =
    JNull
  | JBool bool
  | JInt int
  | JFloat int int
  | JStr string
  | JArr "json list"
  | JObj "(string \<times> json) list"

text \<open>
  A piece of an f-string: literal text, or a value interpolated with \<^verbatim>\<open>{...}\<close>.
  The interpolated value is kept as it is, so that Python's \<^verbatim>\<open>str()\<close> of a
  dict or list need not be modelled.
\<close>

datatype fpart = Lit string | Fmt json

type_synonym fstring = "fpart list"

text \<open>
  The exceptions a run can end with. \<^verbatim>\<open>ValueError\<close> and \<^verbatim>\<open>RuntimeError\<close> are
  raised by the script itself (the spec calls them FormatError and ApiError),
  \<^verbatim>\<open>ValidationError\<close> by pydantic, \<^verbatim>\<open>KeyError\<close> and \<^verbatim>\<open>TypeError\<close> by
  subscripting, iterating and \<^verbatim>\<open>re.search\<close>, \<^verbatim>\<open>HTTPError\<close> by
  \<^verbatim>\<open>raise_for_status\<close>, \<^verbatim>\<open>ConnectionError\<close> by the transport,
  \<^verbatim>\<open>RecursionError\<close> by the JSON parser on a body nested too deep.
\<close>

datatype error =
    ValueError fstring
  | RuntimeError string
  | ValidationError
  | KeyError string
  | TypeError
  | HTTPError nat
  | ConnectionError
  | RecursionError

text \<open>
  What \<^verbatim>\<open>r.json()\<close> does: it returns the parsed value, or raises
  \<^verbatim>\<open>requests.JSONDecodeError\<close>, or raises another exception: the parser raises a
  plain \<^verbatim>\<open>ValueError\<close> on an integer of more than 4300 digits (before it has read
  the rest of the body, valid or not) and \<^verbatim>\<open>RecursionError\<close> on a body nested too
  deep.
\<close>

datatype json_outcome = Parsed json | JSONDecodeError | Raised error

text \<open>
  A \<^verbatim>\<open>requests.Response\<close>: the raw body, what \<^verbatim>\<open>r.json()\<close> does on it and the
  status code.
\<close>

record response =
  text_body :: string
  json_body :: json_outcome
  status_code :: nat

section \<open>Expected types and pydantic validation\<close>

text \<open>
  The types the script passes as \<^verbatim>\<open>expected_type\<close>: \<^verbatim>\<open>dict\<close>, and
  \<^verbatim>\<open>list[t]\<close> built by the paginated decoder.
\<close>

datatype expected_type = TDict | TList expected_type

fun sequence :: "(error + 'a) list \<Rightarrow> error + 'a list" where
  "sequence [] = Inr []"
| "sequence (Inl e # rs) = Inl e"
| "sequence (Inr x # rs) = (case sequence rs of Inl e \<Rightarrow> Inl e | Inr xs \<Rightarrow> Inr (x # xs))"

text \<open>
  \<^verbatim>\<open>pydantic.TypeAdapter(t).validate_python(v)\<close> on a value that came out of
  \<^verbatim>\<open>r.json()\<close>: \<^verbatim>\<open>dict\<close> accepts any dict, \<^verbatim>\<open>list[t]\<close> accepts a list
  whose elements all validate against \<^verbatim>\<open>t\<close>.
\<close>

primrec validate_python :: "expected_type \<Rightarrow> json \<Rightarrow> error + json" where
  "validate_python TDict v =
     (case v of JObj kvs \<Rightarrow> Inr (JObj kvs) | _ \<Rightarrow> Inl ValidationError)"
| "validate_python (TList t) v =
     (case v of
        JArr xs \<Rightarrow>
          (case sequence (map (validate_python t) xs) of
             Inl e \<Rightarrow> Inl ValidationError
           | Inr ys \<Rightarrow> Inr (JArr ys))
      | _ \<Rightarrow> Inl ValidationError)"

section \<open>The API response decoder\<close>

definition unexpected_format :: string where
  "unexpected_format = ''Unexpected response format: ''"

text \<open>
  The mapping pattern
  \<^verbatim>\<open>{"message": str() as message, "exception": str() as exception}\<close>.
\<close>

fun match_error_envelope :: "json \<Rightarrow> (string \<times> string) option" where
  "match_error_envelope (JObj kvs) =
     (case map_of kvs ''message'' of
        Some (JStr message) \<Rightarrow>
          (case map_of kvs ''exception'' of
             Some (JStr exception) \<Rightarrow> Some (message, exception)
           | _ \<Rightarrow> None)
      | _ \<Rightarrow> None)"
| "match_error_envelope _ = None"

text \<open>The mapping pattern \<^verbatim>\<open>{"data": object() as actual_data}\<close>.\<close>

fun match_data_envelope :: "json \<Rightarrow> json option" where
  "match_data_envelope (JObj kvs) = map_of kvs ''data''"
| "match_data_envelope _ = None"

text \<open>
  The \<^verbatim>\<open>except\<close> clause catches \<^verbatim>\<open>requests.JSONDecodeError\<close> only: any other
  exception of \<^verbatim>\<open>r.json()\<close> leaves the function as it is.
\<close>

definition process_api_response :: "response \<Rightarrow> expected_type \<Rightarrow> error + json" where
  "process_api_response r expected =
     (case json_body r of
        JSONDecodeError \<Rightarrow> Inl (ValueError [Lit unexpected_format, Lit (text_body r)])
      | Raised e \<Rightarrow> Inl e
      | Parsed data \<Rightarrow>
          (case match_error_envelope data of
             Some (message, exception) \<Rightarrow> Inl (RuntimeError (exception @ '': '' @ message))
           | None \<Rightarrow>
               (case match_data_envelope data of
                  Some actual_data \<Rightarrow> validate_python expected actual_data
                | None \<Rightarrow> Inl (ValueError [Lit unexpected_format, Fmt data]))))"

section \<open>The session\<close>

datatype http_method = GET | POST

text \<open>
  A call of \<^verbatim>\<open>session.get\<close> or \<^verbatim>\<open>session.post\<close>: the \<^verbatim>\<open>url\<close> argument as the
  caller passes it (\<^verbatim>\<open>FireflySession.request\<close> joins it to the base url), the
  \<^verbatim>\<open>params\<close> and the \<^verbatim>\<open>json\<close> keyword arguments.
\<close>

record request =
  req_method :: http_method
  req_url :: fstring
  req_params :: "(string \<times> string) list"
  req_json :: "json option"

definition get_request :: "fstring \<Rightarrow> (string \<times> string) list \<Rightarrow> request" where
  "get_request u ps = \<lparr>req_method = GET, req_url = u, req_params = ps, req_json = None\<rparr>"

definition post_request :: "fstring \<Rightarrow> json \<Rightarrow> request" where
  "post_request u body = \<lparr>req_method = POST, req_url = u, req_params = [], req_json = Some body\<rparr>"

text \<open>
  The session and the ledger behind it. \<open>responses\<close> is what the ledger will answer
  to the coming requests, in order; when it is used up the transport fails.
  \<open>sent\<close> is the list of requests issued so far.
\<close>

record session =
  base_url :: string
  authorization :: string
  responses :: "response list"
  sent :: "request list"

definition FireflySession :: "string \<Rightarrow> string \<Rightarrow> response list \<Rightarrow> session" where
  "FireflySession base api_token rs =
     \<lparr>base_url = base, authorization = ''Bearer '' @ api_token, responses = rs, sent = []\<rparr>"

definition session_request :: "request \<Rightarrow> session \<Rightarrow> (error + response) \<times> session" where
  "session_request q s =
     (case responses s of
        [] \<Rightarrow> (Inl ConnectionError, s\<lparr>sent := sent s @ [q]\<rparr>)
      | r # rs \<Rightarrow> (Inr r, s\<lparr>responses := rs, sent := sent s @ [q]\<rparr>))"

text \<open>\<^verbatim>\<open>Response.raise_for_status\<close> of requests: it raises on a 4xx or 5xx status.\<close>

definition raise_for_status :: "response \<Rightarrow> error + unit" where
  "raise_for_status r =
     (if 400 \<le> status_code r \<and> status_code r < 600 then Inl (HTTPError (status_code r))
      else Inr ())"

section \<open>Subscripting and iterating Python values\<close>

text \<open>\<^verbatim>\<open>v[k]\<close> with a string key: only a dict can be subscripted so.\<close>

fun getitem :: "json \<Rightarrow> string \<Rightarrow> error + json" where
  "getitem (JObj kvs) k = (case map_of kvs k of None \<Rightarrow> Inl (KeyError k) | Some v \<Rightarrow> Inr v)"
| "getitem _ k = Inl TypeError"

text \<open>
  What iterating over a value gives (\<^verbatim>\<open>yield from v\<close>): the elements of a list,
  the keys of a dict, the characters of a string; anything else is not iterable.
\<close>

fun py_iter :: "json \<Rightarrow> error + json list" where
  "py_iter (JArr xs) = Inr xs"
| "py_iter (JObj kvs) = Inr (map JStr (remdups (map fst kvs)))"
| "py_iter (JStr s) = Inr (map (\<lambda>c. JStr [c]) s)"
| "py_iter _ = Inl TypeError"

section \<open>Generators\<close>

text \<open>
  A generator is the list of what it does when it is driven to its end: it yields
  an item, issues a request on the session, or raises. Nothing of the list happens
  before the consumer asks for it: \<open>gen_next\<close> is one call of \<^verbatim>\<open>next()\<close>, which
  runs the generator up to its next \<^verbatim>\<open>yield\<close>.
\<close>

datatype event = Yield json | Request request | Raise error

fun gen_next :: "event list \<Rightarrow> session \<Rightarrow> (error + json option) \<times> event list \<times> session" where
  "gen_next [] s = (Inr None, [], s)"
| "gen_next (Yield x # g) s = (Inr (Some x), g, s)"
| "gen_next (Request q # g) s = gen_next g (snd (session_request q s))"
| "gen_next (Raise e # g) s = (Inl e, [], s)"

text \<open>The items of the first \<open>n\<close> calls of \<^verbatim>\<open>next()\<close>, stopping when one does not yield.\<close>

fun pull :: "nat \<Rightarrow> event list \<Rightarrow> session \<Rightarrow> json list \<times> event list \<times> session" where
  "pull 0 g s = ([], g, s)"
| "pull (Suc n) g s =
     (case gen_next g s of
        (Inr (Some x), g', s') \<Rightarrow> (case pull n g' s' of (xs, g'', s'') \<Rightarrow> (x # xs, g'', s''))
      | (_, g', s') \<Rightarrow> ([], g', s'))"

text \<open>\<^verbatim>\<open>list(g)\<close>: the generator driven to its end.\<close>

fun drain :: "event list \<Rightarrow> session \<Rightarrow> (error + json list) \<times> session" where
  "drain [] s = (Inr [], s)"
| "drain (Yield x # g) s =
     (case drain g s of (Inl e, s') \<Rightarrow> (Inl e, s') | (Inr xs, s') \<Rightarrow> (Inr (x # xs), s'))"
| "drain (Request q # g) s = drain g (snd (session_request q s))"
| "drain (Raise e # g) s = (Inl e, s)"

section \<open>The paginated decoder\<close>

text \<open>The pattern \<^verbatim>\<open>{"links": {"next": str() as next}}\<close>.\<close>

fun match_next_link :: "json \<Rightarrow> string option" where
  "match_next_link (JObj kvs) =
     (case map_of kvs ''links'' of
        Some (JObj links) \<Rightarrow>
          (case map_of links ''next'' of Some (JStr next) \<Rightarrow> Some next | _ \<Rightarrow> None)
      | _ \<Rightarrow> None)"
| "match_next_link _ = None"

text \<open>
  \<open>rs\<close> is what the session will answer to the requests of the generator:
  the generator is the only user of the session while it is iterated.
\<close>

fun process_paginated_api_response :: "expected_type \<Rightarrow> response \<Rightarrow> response list \<Rightarrow> event list" where
  "process_paginated_api_response expected r rs =
     (case json_body r of
        JSONDecodeError \<Rightarrow> [Raise (ValueError [Lit unexpected_format, Lit (text_body r)])]
      | Raised e \<Rightarrow> [Raise e]
      | Parsed data \<Rightarrow>
          (case process_api_response r (TList expected) of
             Inl e \<Rightarrow> [Raise e]
           | Inr page \<Rightarrow>
               (case py_iter page of
                  Inl e \<Rightarrow> [Raise e]
                | Inr items \<Rightarrow>
                    map Yield items @
                    (case match_next_link data of
                       None \<Rightarrow> []
                     | Some next \<Rightarrow>
                         Request (get_request [Lit next] []) #
                         (case rs of
                            [] \<Rightarrow> [Raise ConnectionError]
                          | r' # rs' \<Rightarrow> process_paginated_api_response expected r' rs')))))"

section \<open>The transaction scanner\<close>

definition quoted :: "string \<Rightarrow> string" where
  "quoted v = [CHR 0x22] @ v @ [CHR 0x22]"

definition search_query :: "string \<Rightarrow> string" where
  "search_query account =
     ''account_is:'' @ quoted account @ '' type:'' @ quoted ''withdrawal'' @
     '' notes_contain:'' @ quoted ''Original account name''"

text \<open>\<^verbatim>\<open>page["attributes"]["transactions"]\<close>, iterated.\<close>

definition page_transactions :: "json \<Rightarrow> error + json list" where
  "page_transactions page =
     (case getitem page ''attributes'' of
        Inl e \<Rightarrow> Inl e
      | Inr attributes \<Rightarrow>
          (case getitem attributes ''transactions'' of
             Inl e \<Rightarrow> Inl e
           | Inr transactions \<Rightarrow> py_iter transactions))"

text \<open>The loop of \<^verbatim>\<open>get_transactions_with_notes\<close> over the pages' elements.\<close>

fun flatten_pages :: "event list \<Rightarrow> event list" where
  "flatten_pages [] = []"
| "flatten_pages (Yield page # g) =
     (case page_transactions page of
        Inl e \<Rightarrow> [Raise e]
      | Inr transactions \<Rightarrow> map Yield transactions @ flatten_pages g)"
| "flatten_pages (Request q # g) = Request q # flatten_pages g"
| "flatten_pages (Raise e # g) = [Raise e]"

definition get_transactions_with_notes :: "string \<Rightarrow> response list \<Rightarrow> event list" where
  "get_transactions_with_notes account rs =
     Request (get_request [Lit ''/api/v1/search/transactions'']
                [(''query'', search_query account)]) #
     (case rs of
        [] \<Rightarrow> [Raise ConnectionError]
      | r # rs' \<Rightarrow> flatten_pages (process_paginated_api_response TDict r rs'))"

section \<open>Extracting the beneficiary\<close>

definition marker :: string where
  "marker = ''Original account name: ''"

text \<open>
  Group 1 of \<^verbatim>\<open>re.search(r"Original account name: ([^\n]*)", s)\<close>: the leftmost
  place where the marker stands, then every character up to the next newline.
\<close>

fun re_search :: "string \<Rightarrow> string option" where
  "re_search s =
     (if prefix marker s then Some (takeWhile (\<lambda>c. c \<noteq> CHR 0x0A) (drop (length marker) s))
      else (case s of [] \<Rightarrow> None | c # cs \<Rightarrow> re_search cs))"

text \<open>\<^verbatim>\<open>str.isspace\<close> on one code point below 256, and \<^verbatim>\<open>str.strip()\<close>.\<close>

definition is_space :: "char \<Rightarrow> bool" where
  "is_space c = ((of_char c :: nat) \<in> {9, 10, 11, 12, 13, 28, 29, 30, 31, 32, 133, 160})"

definition strip :: "string \<Rightarrow> string" where
  "strip s = rev (dropWhile is_space (rev (dropWhile is_space s)))"

section \<open>Logging\<close>

datatype level = DEBUG | INFO | WARNING | ERROR

text \<open>A call of the logger: its level, its format string and its arguments.\<close>

datatype log_record = Log level string "json list"

text \<open>The numeric level \<^verbatim>\<open>setup_logging\<close> gives the logger.\<close>

definition setup_logging :: "nat \<Rightarrow> nat" where
  "setup_logging verbosity =
     (if verbosity = 0 then 40 else if verbosity = 1 then 30 else if verbosity = 2 then 20
      else if verbosity = 3 then 10 else 0)"

text \<open>
  What a run acts on: the session, the logger's level and every call made to the
  logger (whether or not the level lets it print).
\<close>

record world =
  session :: session
  log_level :: nat
  logged :: "log_record list"

definition log_call :: "level \<Rightarrow> string \<Rightarrow> json list \<Rightarrow> world \<Rightarrow> world" where
  "log_call l fmt args w = w\<lparr>logged := logged w @ [Log l fmt args]\<rparr>"

definition do_request :: "request \<Rightarrow> world \<Rightarrow> (error + response) \<times> world" where
  "do_request q w =
     (case session_request q (session w) of (res, s') \<Rightarrow> (res, w\<lparr>session := s'\<rparr>))"

section \<open>The scan of \<^verbatim>\<open>main\<close>\<close>

text \<open>\<^verbatim>\<open>re.search\<close> needs a string: on anything else it raises \<^verbatim>\<open>TypeError\<close>.\<close>

definition search_notes :: "json \<Rightarrow> error + string option" where
  "search_notes notes = (case notes of JStr s \<Rightarrow> Inr (re_search s) | _ \<Rightarrow> Inl TypeError)"

text \<open>
  The body of the loop over the transactions. The arguments of the logger are
  evaluated whatever the level, so both subscripts are taken first.
\<close>

definition scan_body :: "json \<Rightarrow> string set \<Rightarrow> world \<Rightarrow> (error + string set) \<times> world" where
  "scan_body transaction missing_rules w =
     (case getitem transaction ''transaction_journal_id'' of
        Inl e \<Rightarrow> (Inl e, w)
      | Inr journal_id \<Rightarrow>
          (case getitem transaction ''notes'' of
             Inl e \<Rightarrow> (Inl e, w)
           | Inr notes \<Rightarrow>
               (let w1 = log_call DEBUG ''Transaction %s: %s'' [journal_id, notes] w in
                case search_notes notes of
                  Inl e \<Rightarrow> (Inl e, w1)
                | Inr None \<Rightarrow>
                    (Inr missing_rules,
                     log_call ERROR ''Failed to match note of transaction %s: %s''
                       [journal_id, notes] w1)
                | Inr (Some name) \<Rightarrow> (Inr (insert (strip name) missing_rules), w1))))"

text \<open>
  The \<^verbatim>\<open>for\<close> loop of \<^verbatim>\<open>main\<close> over the generator: each request of the generator
  happens when the loop reaches it, and the loop ends at the first exception.
\<close>

fun scan_loop :: "event list \<Rightarrow> string set \<Rightarrow> world \<Rightarrow> (error + string set) \<times> world" where
  "scan_loop [] missing_rules w = (Inr missing_rules, w)"
| "scan_loop (Yield transaction # g) missing_rules w =
     (case scan_body transaction missing_rules w of
        (Inl e, w') \<Rightarrow> (Inl e, w')
      | (Inr missing_rules', w') \<Rightarrow> scan_loop g missing_rules' w')"
| "scan_loop (Request q # g) missing_rules w = scan_loop g missing_rules (snd (do_request q w))"
| "scan_loop (Raise e # g) missing_rules w = (Inl e, w)"

definition scan :: "string \<Rightarrow> world \<Rightarrow> (error + string set) \<times> world" where
  "scan account w =
     scan_loop (get_transactions_with_notes account (responses (session w))) {} w"

section \<open>The rule provisioner\<close>

definition rule_json :: "string \<Rightarrow> string \<Rightarrow> string \<Rightarrow> json" where
  "rule_json account beneficiary rule_group =
     JObj [
       (''title'', JStr beneficiary),
       (''rule_group_title'', JStr rule_group),
       (''strict'', JBool True),
       (''trigger'', JStr ''store-journal''),
       (''triggers'', JArr [
          JObj [(''type'', JStr ''transaction_type''), (''value'', JStr ''withdrawal'')],
          JObj [(''type'', JStr ''to_account_is''), (''value'', JStr account)],
          JObj [(''type'', JStr ''notes_contains''),
                (''value'', JStr (''Original account name: '' @ beneficiary))]]),
       (''actions'', JArr [
          JObj [(''type'', JStr ''set_destination_account''), (''value'', JStr beneficiary)]])]"

definition create_fixing_rule ::
  "string \<Rightarrow> string \<Rightarrow> string \<Rightarrow> world \<Rightarrow> (error + json) \<times> world" where
  "create_fixing_rule account beneficiary rule_group w =
     (let w1 = log_call DEBUG ''Creating rule %s in group %s'' [JStr beneficiary, JStr rule_group] w in
      case do_request (post_request [Lit ''/api/v1/rules''] (rule_json account beneficiary rule_group)) w1 of
        (Inl e, w2) \<Rightarrow> (Inl e, w2)
      | (Inr r, w2) \<Rightarrow>
          (case process_api_response r TDict of
             Inl e \<Rightarrow> (Inl e, w2)
           | Inr rule \<Rightarrow>
               (case getitem rule ''id'' of
                  Inl e \<Rightarrow> (Inl e, w2)
                | Inr rule_id \<Rightarrow>
                    (let w3 = log_call DEBUG ''Triggering newly created rule %s (%s)''
                                [rule_id, JStr beneficiary] w2 in
                     case do_request
                            (post_request [Lit ''/api/v1/rules/'', Fmt rule_id, Lit ''/trigger'']
                               (JObj [])) w3 of
                       (Inl e, w4) \<Rightarrow> (Inl e, w4)
                     | (Inr r2, w4) \<Rightarrow>
                         (case raise_for_status r2 of
                            Inl e \<Rightarrow> (Inl e, w4)
                          | Inr u \<Rightarrow> (Inr rule, w4))))))"

section \<open>The entry point\<close>

fun join :: "string \<Rightarrow> string list \<Rightarrow> string" where
  "join sep [] = []"
| "join sep [x] = x"
| "join sep (x # y # ys) = x @ sep @ join sep (y # ys)"

text \<open>Fetching the current user and logging its email.\<close>

definition authenticate :: "world \<Rightarrow> (error + unit) \<times> world" where
  "authenticate w =
     (case do_request (get_request [Lit ''/api/v1/about/user''] []) w of
        (Inl e, w1) \<Rightarrow> (Inl e, w1)
      | (Inr r, w1) \<Rightarrow>
          (case process_api_response r TDict of
             Inl e \<Rightarrow> (Inl e, w1)
           | Inr user \<Rightarrow>
               (case getitem user ''attributes'' of
                  Inl e \<Rightarrow> (Inl e, w1)
                | Inr attributes \<Rightarrow>
                    (case getitem attributes ''email'' of
                       Inl e \<Rightarrow> (Inl e, w1)
                     | Inr email \<Rightarrow> (Inr (), log_call INFO ''Authenticated as %s'' [email] w1)))))"

text \<open>The loop that creates the rules, over the beneficiaries in the order given.\<close>

fun provision_loop :: "string list \<Rightarrow> string \<Rightarrow> string \<Rightarrow> world \<Rightarrow> (error + unit) \<times> world" where
  "provision_loop [] account rule_group w = (Inr (), w)"
| "provision_loop (beneficiary # bs) account rule_group w =
     (case create_fixing_rule account beneficiary rule_group w of
        (Inl e, w') \<Rightarrow> (Inl e, w')
      | (Inr rule, w') \<Rightarrow>
          (case getitem rule ''attributes'' of
             Inl e \<Rightarrow> (Inl e, w')
           | Inr attributes \<Rightarrow>
               (case getitem attributes ''title'' of
                  Inl e \<Rightarrow> (Inl e, w')
                | Inr title \<Rightarrow>
                    (case getitem rule ''id'' of
                       Inl e \<Rightarrow> (Inl e, w')
                     | Inr rule_id \<Rightarrow>
                         provision_loop bs account rule_group
                           (log_call INFO ''Successfully created rule %s (%s)''
                              [title, rule_id] w')))))"

text \<open>
  \<^verbatim>\<open>main\<close>. \<open>set_iter\<close> is the order in which Python iterates over the set
  \<^verbatim>\<open>missing_rules\<close>, which the language leaves open; \<open>rs\<close> is what the ledger
  answers during the run. The result is the exception the run ends with, if any,
  and the final state.
\<close>

definition main ::
  "(string set \<Rightarrow> string list) \<Rightarrow> response list \<Rightarrow>
   nat \<Rightarrow> string \<Rightarrow> string \<Rightarrow> string \<Rightarrow> bool \<Rightarrow> string \<Rightarrow> (error + unit) \<times> world" where
  "main set_iter rs verbose firefly_url access_token rule_group dry_run account =
     (let w0 = \<lparr>session = FireflySession firefly_url access_token rs,
                log_level = setup_logging verbose, logged = []\<rparr> in
      case authenticate w0 of
        (Inl e, w1) \<Rightarrow> (Inl e, w1)
      | (Inr u, w1) \<Rightarrow>
          (case scan account w1 of
             (Inl e, w2) \<Rightarrow> (Inl e, w2)
           | (Inr missing_rules, w2) \<Rightarrow>
               (if missing_rules = {} then
                  (Inr (),
                   log_call INFO
                     ''No transaction towards account %s need fixing, no rule to create''
                     [JStr account] w2)
                else
                  (let w3 = log_call INFO
                        ''Account %s contains transactions towards %d other beneficiaries:\<newline>- %s''
                        [JStr account, JInt (int (card missing_rules)),
                         JStr (join ''\<newline>- '' (set_iter missing_rules))] w2;
                       w4 = log_call INFO ''New rules will be created in rule group %s''
                              [JStr rule_group] w3 in
                   if dry_run then (Inr (), w4)
                   else provision_loop (set_iter missing_rules) account rule_group w4))))"

section \<open>Notions of the specification\<close>

text \<open>A value has the expected shape: a dict, or a list of values of the element shape.\<close>

primrec conforms :: "expected_type \<Rightarrow> json \<Rightarrow> bool" where
  "conforms TDict v = (case v of JObj kvs \<Rightarrow> True | _ \<Rightarrow> False)"
| "conforms (TList t) v = (case v of JArr xs \<Rightarrow> list_all (conforms t) xs | _ \<Rightarrow> False)"

text \<open>An object is an error envelope: it has a textual message and a textual exception.\<close>

definition textual_error_envelope :: "(string \<times> json) list \<Rightarrow> bool" where
  "textual_error_envelope kvs =
     ((case map_of kvs ''message'' of Some (JStr m) \<Rightarrow> True | _ \<Rightarrow> False) \<and>
      (case map_of kvs ''exception'' of Some (JStr e) \<Rightarrow> True | _ \<Rightarrow> False))"

text \<open>The POST requests among the requests sent.\<close>

definition posts :: "request list \<Rightarrow> request list" where
  "posts qs = filter (\<lambda>q. req_method q = POST) qs"

text \<open>A request is the creation of the rule for a beneficiary name.\<close>

definition rule_creation_for :: "string \<Rightarrow> request \<Rightarrow> bool" where
  "rule_creation_for name q =
     (req_method q = POST \<and> req_url q = [Lit ''/api/v1/rules''] \<and>
      (case req_json q of
         Some body \<Rightarrow> getitem body ''title'' = Inr (JStr name)
       | None \<Rightarrow> False))"

text \<open>
  An exception of a subscript, an iteration or \<^verbatim>\<open>re.search\<close>, and a run that ends
  with one.
\<close>

definition lookup_or_type_error :: "error \<Rightarrow> bool" where
  "lookup_or_type_error e = (case e of KeyError k \<Rightarrow> True | TypeError \<Rightarrow> True | _ \<Rightarrow> False)"

definition lookup_abort :: "(error + 'a) \<times> world \<Rightarrow> bool" where
  "lookup_abort res = (case fst res of Inl e \<Rightarrow> lookup_or_type_error e | Inr x \<Rightarrow> False)"

text \<open>
  A page element with no \<open>attributes\<close>, or whose attributes have no \<open>transactions\<close>;
  a transaction with no \<open>transaction_journal_id\<close>, no \<open>notes\<close>, or notes that are
  not a string; a page element with one of these defects.
\<close>

definition lacks_transactions :: "json \<Rightarrow> bool" where
  "lacks_transactions element =
     (case element of
        JObj kvs \<Rightarrow>
          (case map_of kvs ''attributes'' of
             None \<Rightarrow> True
           | Some (JObj attributes) \<Rightarrow> map_of attributes ''transactions'' = None
           | Some _ \<Rightarrow> True)
      | _ \<Rightarrow> True)"

definition malformed_transaction :: "json \<Rightarrow> bool" where
  "malformed_transaction t =
     (case t of
        JObj kvs \<Rightarrow>
          (map_of kvs ''transaction_journal_id'' = None \<or>
           (case map_of kvs ''notes'' of Some (JStr notes) \<Rightarrow> False | _ \<Rightarrow> True))
      | _ \<Rightarrow> True)"

definition malformed_element :: "json \<Rightarrow> bool" where
  "malformed_element element =
     (lacks_transactions element \<or>
      (case page_transactions element of
         Inl e \<Rightarrow> False
       | Inr transactions \<Rightarrow> list_ex malformed_transaction transactions))"

text \<open>An exception is the last thing a generator does.\<close>

fun raise_last :: "event list \<Rightarrow> bool" where
  "raise_last [] = True"
| "raise_last (Raise e # g) = (g = [])"
| "raise_last (ev # g) = raise_last g"

text \<open>
  A page of a paginated answer: its items and its \<open>links.next\<close>, if it has one.
  \<open>page_sequence t r rs pages\<close>: the first response \<open>r\<close> and the answers \<open>rs\<close> to the
  following GETs are the pages, each a success envelope whose data is the list of the
  page's items, all of the item shape; every page but the last carries a link.
\<close>

type_synonym page = "json list \<times> string option"

fun page_sequence :: "expected_type \<Rightarrow> response \<Rightarrow> response list \<Rightarrow> page list \<Rightarrow> bool" where
  "page_sequence t r rs [] = False"
| "page_sequence t r rs ((items, next) # pages) =
     (case json_body r of
        Parsed (JObj kvs) \<Rightarrow>
          \<not> textual_error_envelope kvs \<and>
          map_of kvs ''data'' = Some (JArr items) \<and>
          list_all (conforms t) items \<and>
          match_next_link (JObj kvs) = next \<and>
          (case next of
             None \<Rightarrow> pages = []
           | Some u \<Rightarrow>
               (case rs of [] \<Rightarrow> False | r' # rs' \<Rightarrow> page_sequence t r' rs' pages))
      | _ \<Rightarrow> False)"

text \<open>
  What the spec says of the decoder on these pages: the items of a page, then the GET
  of its link, then the next page.
\<close>

fun page_trace :: "page list \<Rightarrow> event list" where
  "page_trace [] = []"
| "page_trace ((items, next) # pages) =
     map Yield items @
     (case next of
        None \<Rightarrow> []
      | Some u \<Rightarrow> Request (get_request [Lit u] []) # page_trace pages)"

text \<open>The GETs of the links of the pages, in order.\<close>

fun next_requests :: "page list \<Rightarrow> request list" where
  "next_requests [] = []"
| "next_requests ((items, next) # pages) =
     (case next of None \<Rightarrow> [] | Some u \<Rightarrow> get_request [Lit u] [] # next_requests pages)"

section \<open>Examples\<close>

definition ok_response :: "json \<Rightarrow> response" where
  "ok_response body = \<lparr>text_body = [], json_body = Parsed body, status_code = 200\<rparr>"

definition quiet_world :: "response list \<Rightarrow> world" where
  "quiet_world rs = \<lparr>session = FireflySession [] [] rs, log_level = 40, logged = []\<rparr>"

definition note_transaction :: "string \<Rightarrow> string \<Rightarrow> json" where
  "note_transaction journal_id notes =
     JObj [(''transaction_journal_id'', JStr journal_id), (''notes'', JStr notes)]"

definition rule_response :: "string \<Rightarrow> string \<Rightarrow> response" where
  "rule_response rule_id title =
     ok_response (JObj [(''data'',
       JObj [(''id'', JStr rule_id), (''attributes'', JObj [(''title'', JStr title)])])])"

definition status_response :: "nat \<Rightarrow> response" where
  "status_response code = \<lparr>text_body = [], json_body = JSONDecodeError, status_code = code\<rparr>"

definition user_response :: response where
  "user_response =
     ok_response (JObj [(''data'', JObj [(''attributes'', JObj [(''email'', JStr ''me@example.org'')])])])"

definition transactions_page :: "json list \<Rightarrow> string option \<Rightarrow> response" where
  "transactions_page transactions next =
     ok_response (JObj
       ((''data'', JArr [JObj [(''attributes'', JObj [(''transactions'', JArr transactions)])]]) #
        (case next of None \<Rightarrow> [] | Some u \<Rightarrow> [(''links'', JObj [(''next'', JStr u)])])))"

text \<open>
  A run on account 12: the user, then one page of two transactions whose notes give the
  same beneficiary, then the answers to the creation and to the trigger of one rule.
\<close>

definition example_run :: "bool \<Rightarrow> (error + unit) \<times> world" where
  "example_run dry_run =
     main (\<lambda>names. [''Acme Corp''])
       [user_response,
        transactions_page
          [note_transaction ''1'' ''Original account name: Acme Corp'',
           note_transaction ''2'' ''Original account name:   Acme Corp  \<newline>second line''] None,
        rule_response ''7'' ''Acme Corp'',
        status_response 204]
       0 ''https://firefly.example/'' ''token'' ''Fixes'' dry_run ''12''"

text \<open>A run whose only page has one element, given as it is.\<close>

definition elements_page :: "json list \<Rightarrow> response" where
  "elements_page elements = ok_response (JObj [(''data'', JArr elements)])"

definition malformed_run :: "json \<Rightarrow> (error + unit) \<times> world" where
  "malformed_run element =
     main (\<lambda>names. []) [user_response, elements_page [element]]
       0 ''https://firefly.example/'' ''token'' ''Fixes'' False ''12''"

text \<open>Three pages of items, the first two with a link to the next one.\<close>

definition items_page :: "json list \<Rightarrow> string option \<Rightarrow> response" where
  "items_page items next =
     ok_response (JObj
       ((''data'', JArr items) #
        (case next of None \<Rightarrow> [] | Some u \<Rightarrow> [(''links'', JObj [(''next'', JStr u)])])))"

definition item :: "string \<Rightarrow> json" where
  "item name = JObj [(''id'', JStr name)]"

definition three_pages :: "event list" where
  "three_pages =
     process_paginated_api_response TDict
       (items_page [item ''a'', item ''b''] (Some ''/page2''))
       [items_page [item ''c''] (Some ''/page3''), items_page [item ''d'', item ''e''] None]"

definition three_pages_session :: session where
  "three_pages_session =
     FireflySession [] []
       [items_page [item ''c''] (Some ''/page3''), items_page [item ''d'', item ''e''] None]"

text \<open>
  A body that is not JSON and on which the parser raises the \<^verbatim>\<open>ValueError\<close> of the
  integer digit limit before it meets the syntax error.
\<close>

definition digit_limit_message :: string where
  "digit_limit_message =
     ''Exceeds the limit (4300 digits) for integer string conversion: '' @
     ''value has 4301 digits; use sys.set_int_max_str_digits() to increase the limit''"

definition digit_limit_response :: response where
  "digit_limit_response =
     \<lparr>text_body = ''['' @ replicate 4301 (CHR ''1'') @ '',,'',
      json_body = Raised (ValueError [Lit digit_limit_message]),
      status_code = 200\<rparr>"

section \<open>Properties of the API response decoder\<close>

lemma sequence_all_Inr: "sequence (map Inr xs) = Inr xs"
  by (induction xs) auto

lemma sequence_Inr_iff:
  "(\<exists>ys. sequence rs = Inr ys) \<longleftrightarrow> (\<forall>r \<in> set rs. \<exists>y. r = Inr y)"
proof (induction rs rule: sequence.induct)
  case 1
  then show ?case by simp
next
  case (2 e rs)
  then show ?case by simp
next
  case (3 x rs)
  then show ?case by (auto split: sum.splits)
qed

text \<open>Validation returns the value it is given, or fails: it never changes it.\<close>

lemma validate_python_conforms:
  "validate_python t v = (if conforms t v then Inr v else Inl ValidationError)"
proof (induction t arbitrary: v)
  case TDict
  then show ?case by (cases v) auto
next
  case (TList t)
  show ?case
  proof (cases v)
    case (JArr xs)
    show ?thesis
    proof (cases "list_all (conforms t) xs")
      case True
      then have "map (validate_python t) xs = map Inr xs"
        by (auto simp: TList.IH list_all_iff)
      then have "sequence (map (validate_python t) xs) = Inr xs"
        by (simp only: sequence_all_Inr)
      then show ?thesis using True JArr by simp
    next
      case False
      then obtain x where x: "x \<in> set xs" "\<not> conforms t x"
        by (auto simp: list_all_iff)
      then have "Inl ValidationError \<in> set (map (validate_python t) xs)"
        using TList.IH [of x] by force
      then have "\<not> (\<exists>ys. sequence (map (validate_python t) xs) = Inr ys)"
        unfolding sequence_Inr_iff by blast
      then show ?thesis using False JArr by (auto split: sum.splits)
    qed
  qed auto
qed

lemma match_error_envelope_None:
  "\<not> textual_error_envelope kvs \<Longrightarrow> match_error_envelope (JObj kvs) = None"
  by (auto simp: textual_error_envelope_def split: option.splits json.splits)

text \<open>
  C5, as the code has it. The error envelope is matched first, so a body that has a
  \<open>data\<close> field is decoded as data only when it is not also an error envelope. Then
  decoding returns the data unchanged when it has the expected shape, and fails with
  \<open>ValidationError\<close> when it has not.
\<close>

theorem decode_data_identity:
  assumes "json_body r = Parsed (JObj kvs)"
    and "map_of kvs ''data'' = Some x"
    and "\<not> textual_error_envelope kvs"
  shows "process_api_response r t = (if conforms t x then Inr x else Inl ValidationError)"
  using assms
  by (simp add: process_api_response_def match_error_envelope_None validate_python_conforms
      del: match_error_envelope.simps)

theorem decode_data_identity_witness:
  "process_api_response (ok_response (JObj [(''data'', JArr [JObj [(''id'', JStr ''1'')]])]))
     (TList TDict) = Inr (JArr [JObj [(''id'', JStr ''1'')]]) \<and>
   process_api_response (ok_response (JObj [(''data'', JArr [JObj [(''id'', JStr ''1'')]])]))
     TDict = Inl ValidationError"
proof -
  let ?kvs = "[(''data'', JArr [JObj [(''id'', JStr ''1'')]])]"
  have h1: "json_body (ok_response (JObj ?kvs)) = Parsed (JObj ?kvs)"
    by (simp add: ok_response_def)
  have h2: "map_of ?kvs ''data'' = Some (JArr [JObj [(''id'', JStr ''1'')]])"
    by simp
  have h3: "\<not> textual_error_envelope ?kvs"
    by (simp add: textual_error_envelope_def)
  show ?thesis
    using decode_data_identity [OF h1 h2 h3, of "TList TDict"]
      decode_data_identity [OF h1 h2 h3, of TDict]
    by simp
qed

text \<open>
  C5 as stated fails: this body is an object with a \<open>data\<close> field whose value has the
  expected shape, and decoding it raises \<open>RuntimeError\<close> instead of returning the data.
\<close>

theorem decode_data_counterexample:
  "map_of [(''message'', JStr ''m''), (''exception'', JStr ''e''), (''data'', JObj [])] ''data''
     = Some (JObj []) \<and>
   conforms TDict (JObj []) \<and>
   process_api_response
     (ok_response (JObj [(''message'', JStr ''m''), (''exception'', JStr ''e''), (''data'', JObj [])]))
     TDict = Inl (RuntimeError ''e: m'')"
  by (simp add: process_api_response_def ok_response_def)

text \<open>
  C6. A body that is an object with a textual \<open>message\<close> m and a textual \<open>exception\<close> e
  makes the decoder fail with \<open>RuntimeError\<close> (the spec's ApiError) whose text is
  e, a colon and a space, then m.
\<close>

theorem decode_error_envelope:
  assumes "json_body r = Parsed (JObj kvs)"
    and "map_of kvs ''message'' = Some (JStr m)"
    and "map_of kvs ''exception'' = Some (JStr e)"
  shows "process_api_response r t = Inl (RuntimeError (e @ '': '' @ m))"
  using assms by (simp add: process_api_response_def)

theorem decode_error_envelope_witness:
  "process_api_response
     (ok_response (JObj [(''message'', JStr ''Unauthenticated''), (''exception'', JStr ''AuthError'')]))
     TDict = Inl (RuntimeError ''AuthError: Unauthenticated'')"
proof -
  let ?kvs = "[(''message'', JStr ''Unauthenticated''), (''exception'', JStr ''AuthError'')]"
  have h1: "json_body (ok_response (JObj ?kvs)) = Parsed (JObj ?kvs)"
    by (simp add: ok_response_def)
  have h2: "map_of ?kvs ''message'' = Some (JStr ''Unauthenticated'')"
    by simp
  have h3: "map_of ?kvs ''exception'' = Some (JStr ''AuthError'')"
    by simp
  show ?thesis
    using decode_error_envelope [OF h1 h2 h3, of TDict] by simp
qed

text \<open>
  C7, as the code has it. When \<^verbatim>\<open>r.json()\<close> raises \<^verbatim>\<open>JSONDecodeError\<close>, the decoder
  fails with \<open>ValueError\<close> (the spec's FormatError) carrying the raw body text; when
  \<^verbatim>\<open>r.json()\<close> raises another exception, that exception leaves the decoder as it is,
  with no prefix and no body text; a parsed body that is neither an error envelope nor
  an object with a \<open>data\<close> field makes the decoder fail with \<open>ValueError\<close> carrying
  the parsed body.
\<close>

theorem decode_format_error:
  "(json_body r = JSONDecodeError \<longrightarrow>
      process_api_response r t = Inl (ValueError [Lit unexpected_format, Lit (text_body r)])) \<and>
   (json_body r = Raised e \<longrightarrow> process_api_response r t = Inl e) \<and>
   (json_body r = Parsed body \<and>
    (\<forall>kvs. body = JObj kvs \<longrightarrow> \<not> textual_error_envelope kvs \<and> map_of kvs ''data'' = None) \<longrightarrow>
      process_api_response r t = Inl (ValueError [Lit unexpected_format, Fmt body]))"
proof (intro conjI impI)
  assume "json_body r = JSONDecodeError"
  then show "process_api_response r t = Inl (ValueError [Lit unexpected_format, Lit (text_body r)])"
    by (simp add: process_api_response_def)
next
  assume "json_body r = Raised e"
  then show "process_api_response r t = Inl e"
    by (simp add: process_api_response_def)
next
  assume a: "json_body r = Parsed body \<and>
    (\<forall>kvs. body = JObj kvs \<longrightarrow> \<not> textual_error_envelope kvs \<and> map_of kvs ''data'' = None)"
  then have "match_error_envelope body = None" "match_data_envelope body = None"
    by (cases body; simp add: match_error_envelope_None del: match_error_envelope.simps(1))+
  with a show "process_api_response r t = Inl (ValueError [Lit unexpected_format, Fmt body])"
    by (simp add: process_api_response_def)
qed

theorem decode_format_error_witness:
  "process_api_response
     \<lparr>text_body = ''<html>'', json_body = JSONDecodeError, status_code = 502\<rparr> TDict
     = Inl (ValueError [Lit ''Unexpected response format: '', Lit ''<html>'']) \<and>
   process_api_response
     \<lparr>text_body = replicate 100000 (CHR ''[''), json_body = Raised RecursionError,
      status_code = 200\<rparr> TDict
     = Inl RecursionError \<and>
   process_api_response (ok_response (JObj [(''message'', JStr ''m'')])) TDict
     = Inl (ValueError [Lit ''Unexpected response format: '', Fmt (JObj [(''message'', JStr ''m'')])]) \<and>
   process_api_response (ok_response (JArr [])) TDict
     = Inl (ValueError [Lit ''Unexpected response format: '', Fmt (JArr [])])"
proof -
  have h1: "\<forall>kvs. JObj [(''message'', JStr ''m'')] = JObj kvs \<longrightarrow>
              \<not> textual_error_envelope kvs \<and> map_of kvs ''data'' = None"
    by (simp add: textual_error_envelope_def)
  have h2: "\<forall>kvs. JArr [] = JObj kvs \<longrightarrow>
              \<not> textual_error_envelope kvs \<and> map_of kvs ''data'' = None"
    by simp
  show ?thesis
    using decode_format_error [where r = "\<lparr>text_body = ''<html>'', json_body = JSONDecodeError,
          status_code = 502\<rparr>" and t = TDict]
      decode_format_error [where r = "\<lparr>text_body = replicate 100000 (CHR ''[''),
          json_body = Raised RecursionError, status_code = 200\<rparr>"
        and e = RecursionError and t = TDict]
      decode_format_error [where r = "ok_response (JObj [(''message'', JStr ''m'')])"
        and body = "JObj [(''message'', JStr ''m'')]" and t = TDict]
      decode_format_error [where r = "ok_response (JArr [])" and body = "JArr []" and t = TDict]
      h1 h2
    by (simp add: ok_response_def unexpected_format_def)
qed

text \<open>
  C7 as stated fails: the body \<^verbatim>\<open>[\<close>, 4301 times the digit 1, then \<^verbatim>\<open>,,\<close> is not
  JSON, and on it \<^verbatim>\<open>r.json()\<close> raises the plain \<^verbatim>\<open>ValueError\<close> of the integer
  digit limit, which the \<^verbatim>\<open>except\<close> clause does not catch: the decoder fails with an
  error that carries neither the prefix nor the raw body text.
\<close>

theorem decode_format_error_counterexample:
  "text_body digit_limit_response = ''['' @ replicate 4301 (CHR ''1'') @ '',,'' \<and>
   json_body digit_limit_response = Raised (ValueError [Lit digit_limit_message]) \<and>
   process_api_response digit_limit_response TDict = Inl (ValueError [Lit digit_limit_message]) \<and>
   process_api_response digit_limit_response TDict \<noteq>
     Inl (ValueError [Lit unexpected_format, Lit (text_body digit_limit_response)])"
  by (simp add: digit_limit_response_def process_api_response_def)

section \<open>Properties of the extraction and of the scan\<close>

lemma re_search_skip:
  "\<forall>i < length pre. \<not> prefix marker (drop i (pre @ s)) \<Longrightarrow> re_search (pre @ s) = re_search s"
proof (induction pre)
  case Nil
  then show ?case by simp
next
  case (Cons c pre)
  from Cons.prems have "\<not> prefix marker ((c # pre) @ s)" by force
  moreover from Cons.prems have "\<forall>i < length pre. \<not> prefix marker (drop i (pre @ s))"
    by (metis Suc_less_eq append_Cons drop_Suc_Cons length_Cons)
  ultimately show ?case using Cons.IH by simp
qed

lemma takeWhile_line:
  "CHR 0x0A \<notin> set name \<Longrightarrow> rest = [] \<or> hd rest = CHR 0x0A \<Longrightarrow>
   takeWhile (\<lambda>c. c \<noteq> CHR 0x0A) (name @ rest) = name"
  by (cases rest; induction name) auto

lemma dropWhile_spaces:
  "\<forall>c \<in> set ws. is_space c \<Longrightarrow> core = [] \<or> \<not> is_space (hd core) \<Longrightarrow>
   dropWhile is_space (ws @ core) = core"
  by (cases core) (auto simp: dropWhile_append)

lemma strip_core:
  assumes "\<forall>c \<in> set ws1. is_space c" "\<forall>c \<in> set ws2. is_space c"
    and "core = [] \<or> (\<not> is_space (hd core) \<and> \<not> is_space (last core))"
  shows "strip (ws1 @ core @ ws2) = core"
proof (cases "core = []")
  case True
  have "\<forall>c \<in> set (ws1 @ ws2). is_space c"
    using assms by auto
  then have "dropWhile is_space (ws1 @ ws2) = []"
    by (simp only: dropWhile_eq_Nil_conv)
  then show ?thesis
    by (simp only: strip_def True append_Nil rev.simps dropWhile.simps)
next
  case False
  then have a: "dropWhile is_space (ws1 @ core @ ws2) = core @ ws2"
    using assms dropWhile_spaces [of ws1 "core @ ws2"] by (cases core) auto
  have "dropWhile is_space (rev ws2 @ rev core) = rev core"
    using assms False by (intro dropWhile_spaces) (auto simp: hd_rev)
  then show ?thesis using a by (simp add: strip_def)
qed

lemma re_search_None_iff: "re_search s = None \<longleftrightarrow> \<not> sublist marker s"
proof (induction s)
  case Nil
  then show ?case by (simp add: marker_def)
next
  case (Cons c s)
  then show ?case by (simp add: sublist_Cons_right del: re_search.simps add: re_search.simps [of "c # s"])
qed

declare re_search.simps [simp del]

text \<open>
  C3. When the marker first stands after \<open>pre\<close>, and the rest of its line is the name
  between two runs of whitespace, the loop body adds exactly the name to the set: the
  capture runs from the end of the marker up to the next newline (or the end of the
  notes), and is then trimmed at both ends. The witness is the note of the spec,
  \<^verbatim>\<open>"Original account name: Acme Corp\nextra line"\<close>, which gives \<^verbatim>\<open>"Acme Corp"\<close>.
\<close>

theorem beneficiary_extraction:
  assumes "getitem transaction ''transaction_journal_id'' = Inr journal_id"
    and "getitem transaction ''notes'' = Inr (JStr (pre @ marker @ ws1 @ name @ ws2 @ rest))"
    and "\<forall>i < length pre. \<not> prefix marker (drop i (pre @ marker @ ws1 @ name @ ws2 @ rest))"
    and "CHR 0x0A \<notin> set (ws1 @ name @ ws2)"
    and "rest = [] \<or> hd rest = CHR 0x0A"
    and "\<forall>c \<in> set (ws1 @ ws2). is_space c"
    and "name = [] \<or> (\<not> is_space (hd name) \<and> \<not> is_space (last name))"
  shows "fst (scan_body transaction missing_rules w) = Inr (insert name missing_rules)"
proof -
  let ?line = "ws1 @ name @ ws2"
  have "re_search (pre @ marker @ ?line @ rest) = re_search (marker @ ?line @ rest)"
    using assms(3) by (intro re_search_skip) simp
  also have "\<dots> = Some (takeWhile (\<lambda>c. c \<noteq> CHR 0x0A) (?line @ rest))"
    by (simp add: re_search.simps)
  also have "takeWhile (\<lambda>c. c \<noteq> CHR 0x0A) (?line @ rest) = ?line"
    using assms(4,5) by (rule takeWhile_line)
  finally have s: "re_search (pre @ marker @ ws1 @ name @ ws2 @ rest) = Some ?line"
    by simp
  have "strip ?line = name"
    using assms(6,7) by (intro strip_core) auto
  with s show ?thesis
    using assms(1,2) by (simp add: scan_body_def search_notes_def Let_def)
qed

theorem beneficiary_extraction_witness:
  "fst (scan_body (note_transaction ''42'' ''Original account name: Acme Corp\<newline>extra line'')
        {} (quiet_world [])) = Inr {''Acme Corp''}"
proof -
  let ?t = "note_transaction ''42'' ''Original account name: Acme Corp\<newline>extra line''"
  have h1: "getitem ?t ''transaction_journal_id'' = Inr (JStr ''42'')"
    by (simp add: note_transaction_def)
  have h2: "getitem ?t ''notes'' = Inr (JStr ([] @ marker @ [] @ ''Acme Corp'' @ [] @ ''\<newline>extra line''))"
    by (simp add: note_transaction_def marker_def)
  have h3: "\<forall>i < length ([] :: string).
      \<not> prefix marker (drop i ([] @ marker @ [] @ ''Acme Corp'' @ [] @ ''\<newline>extra line''))"
    by simp
  have h4: "CHR 0x0A \<notin> set ([] @ ''Acme Corp'' @ [])"
    by simp
  have h5: "''\<newline>extra line'' = [] \<or> hd ''\<newline>extra line'' = CHR 0x0A"
    by simp
  have h6: "\<forall>c \<in> set ([] @ [] :: string). is_space c"
    by simp
  have h7: "''Acme Corp'' = [] \<or> (\<not> is_space (hd ''Acme Corp'') \<and> \<not> is_space (last ''Acme Corp''))"
    by (simp add: is_space_def)
  show ?thesis
    using beneficiary_extraction [OF h1 h2 h3 h4 h5 h6 h7, of "{}" "quiet_world []"] by simp
qed

text \<open>
  C8. When the notes of a transaction are a string in which the marker does not occur,
  the loop logs an error and goes on with the remaining transactions: the set of
  beneficiaries is unchanged, no request is sent and the run does not end there.
\<close>

theorem non_matching_note_skipped:
  assumes "getitem transaction ''transaction_journal_id'' = Inr journal_id"
    and "getitem transaction ''notes'' = Inr (JStr notes)"
    and "\<not> sublist marker notes"
  shows "scan_loop (Yield transaction # g) missing_rules w =
         scan_loop g missing_rules
           (log_call ERROR ''Failed to match note of transaction %s: %s'' [journal_id, JStr notes]
              (log_call DEBUG ''Transaction %s: %s'' [journal_id, JStr notes] w))"
proof -
  have "re_search notes = None"
    using assms(3) by (simp add: re_search_None_iff)
  then show ?thesis
    using assms(1,2) by (simp add: scan_body_def search_notes_def Let_def)
qed

theorem non_matching_note_skipped_witness:
  "scan_loop
     [Yield (note_transaction ''1'' ''paid by card''),
      Yield (note_transaction ''2'' ''Original account name: Acme Corp'')]
     {} (quiet_world []) =
   (Inr {''Acme Corp''},
    (quiet_world [])\<lparr>logged :=
       [Log DEBUG ''Transaction %s: %s'' [JStr ''1'', JStr ''paid by card''],
        Log ERROR ''Failed to match note of transaction %s: %s'' [JStr ''1'', JStr ''paid by card''],
        Log DEBUG ''Transaction %s: %s'' [JStr ''2'', JStr ''Original account name: Acme Corp'']]\<rparr>)"
proof -
  let ?t = "note_transaction ''1'' ''paid by card''"
  have h1: "getitem ?t ''transaction_journal_id'' = Inr (JStr ''1'')"
    by (simp add: note_transaction_def)
  have h2: "getitem ?t ''notes'' = Inr (JStr ''paid by card'')"
    by (simp add: note_transaction_def)
  have "re_search ''paid by card'' = None"
    by (simp add: re_search.simps marker_def)
  then have h3: "\<not> sublist marker ''paid by card''"
    using re_search_None_iff by blast
  show ?thesis
    using non_matching_note_skipped [OF h1 h2 h3,
        of "[Yield (note_transaction ''2'' ''Original account name: Acme Corp'')]" "{}"
           "quiet_world []"]
    by (simp add: scan_body_def search_notes_def note_transaction_def re_search.simps marker_def
        strip_def is_space_def log_call_def quiet_world_def Let_def)
qed

section \<open>Properties of the rule provisioner\<close>

lemma do_request_Cons:
  "responses (session w) = r # rs \<Longrightarrow>
   do_request q w = (Inr r, w\<lparr>session := (session w)\<lparr>responses := rs, sent := sent (session w) @ [q]\<rparr>\<rparr>)"
  by (simp add: do_request_def session_request_def)

lemma session_log_call [simp]: "session (log_call l fmt args w) = session w"
  by (simp add: log_call_def)

text \<open>
  C9, as the code has it. When the ledger answers the creation with a rule that has an
  \<open>id\<close>, and answers the trigger, the provisioner sends exactly two requests: the POST
  that creates the rule, whose body has the title, the group, strict matching, the
  \<open>store-journal\<close> trigger, the three trigger conditions and the one action; then the
  POST with an empty JSON body to the trigger endpoint of that rule. The second answer
  is only checked by its status: a 4xx or 5xx status raises \<open>HTTPError\<close>, any other
  status lets the created rule be returned.
\<close>

theorem create_fixing_rule_requests:
  assumes "responses (session w) = r # r2 # rs"
    and "process_api_response r TDict = Inr rule"
    and "getitem rule ''id'' = Inr rule_id"
  shows "sent (session (snd (create_fixing_rule account beneficiary rule_group w))) =
           sent (session w) @
           [\<lparr>req_method = POST, req_url = [Lit ''/api/v1/rules''], req_params = [],
             req_json = Some (JObj [
               (''title'', JStr beneficiary),
               (''rule_group_title'', JStr rule_group),
               (''strict'', JBool True),
               (''trigger'', JStr ''store-journal''),
               (''triggers'', JArr [
                  JObj [(''type'', JStr ''transaction_type''), (''value'', JStr ''withdrawal'')],
                  JObj [(''type'', JStr ''to_account_is''), (''value'', JStr account)],
                  JObj [(''type'', JStr ''notes_contains''),
                        (''value'', JStr (''Original account name: '' @ beneficiary))]]),
               (''actions'', JArr [
                  JObj [(''type'', JStr ''set_destination_account''),
                        (''value'', JStr beneficiary)]])])\<rparr>,
            \<lparr>req_method = POST,
             req_url = [Lit ''/api/v1/rules/'', Fmt rule_id, Lit ''/trigger''], req_params = [],
             req_json = Some (JObj [])\<rparr>] \<and>
         fst (create_fixing_rule account beneficiary rule_group w) =
           (if 400 \<le> status_code r2 \<and> status_code r2 < 600
            then Inl (HTTPError (status_code r2)) else Inr rule)"
  using assms
  by (simp add: create_fixing_rule_def do_request_def session_request_def log_call_def Let_def
      raise_for_status_def post_request_def rule_json_def)

theorem create_fixing_rule_requests_witness:
  "sent (session (snd (create_fixing_rule ''12'' ''Acme Corp'' ''Fixes''
          (quiet_world [rule_response ''7'' ''Acme Corp'', status_response 500])))) =
     [post_request [Lit ''/api/v1/rules''] (rule_json ''12'' ''Acme Corp'' ''Fixes''),
      post_request [Lit ''/api/v1/rules/'', Fmt (JStr ''7''), Lit ''/trigger''] (JObj [])] \<and>
   fst (create_fixing_rule ''12'' ''Acme Corp'' ''Fixes''
          (quiet_world [rule_response ''7'' ''Acme Corp'', status_response 500])) =
     Inl (HTTPError 500) \<and>
   fst (create_fixing_rule ''12'' ''Acme Corp'' ''Fixes''
          (quiet_world [rule_response ''7'' ''Acme Corp'', status_response 204])) =
     Inr (JObj [(''id'', JStr ''7''), (''attributes'', JObj [(''title'', JStr ''Acme Corp'')])])"
proof -
  let ?rule = "JObj [(''id'', JStr ''7''), (''attributes'', JObj [(''title'', JStr ''Acme Corp'')])]"
  have h1: "responses (session (quiet_world [rule_response ''7'' ''Acme Corp'', status_response 500])) =
            rule_response ''7'' ''Acme Corp'' # status_response 500 # []"
    by (simp add: quiet_world_def FireflySession_def)
  have h1': "responses (session (quiet_world [rule_response ''7'' ''Acme Corp'', status_response 204])) =
            rule_response ''7'' ''Acme Corp'' # status_response 204 # []"
    by (simp add: quiet_world_def FireflySession_def)
  have h2: "process_api_response (rule_response ''7'' ''Acme Corp'') TDict = Inr ?rule"
    by (simp add: rule_response_def ok_response_def process_api_response_def)
  have h3: "getitem ?rule ''id'' = Inr (JStr ''7'')"
    by simp
  show ?thesis
    using create_fixing_rule_requests [OF h1 h2 h3, where account = "''12''"
          and beneficiary = "''Acme Corp''" and rule_group = "''Fixes''"]
      create_fixing_rule_requests [OF h1' h2 h3, where account = "''12''"
          and beneficiary = "''Acme Corp''" and rule_group = "''Fixes''"]
    by (simp add: status_response_def quiet_world_def FireflySession_def post_request_def
        rule_json_def)
qed

text \<open>
  C9 as stated fails where it says that a status outside 2xx raises: on a 304 answer
  to the trigger, the provisioner returns the created rule.
\<close>

theorem create_fixing_rule_counterexample:
  "status_code (status_response 304) = 304 \<and>
   fst (create_fixing_rule ''12'' ''Acme Corp'' ''Fixes''
          (quiet_world [rule_response ''7'' ''Acme Corp'', status_response 304])) =
     Inr (JObj [(''id'', JStr ''7''), (''attributes'', JObj [(''title'', JStr ''Acme Corp'')])])"
  by (simp add: create_fixing_rule_def do_request_def session_request_def quiet_world_def
      FireflySession_def rule_response_def status_response_def ok_response_def
      process_api_response_def raise_for_status_def log_call_def Let_def)

section \<open>Properties of the run\<close>

declare process_paginated_api_response.simps [simp del]

lemma posts_append [simp]: "posts (xs @ ys) = posts xs @ posts ys"
  by (simp add: posts_def)

lemma sent_do_request: "sent (session (snd (do_request q w))) = sent (session w) @ [q]"
  by (simp add: do_request_def session_request_def split: list.splits)

lemma snd_do_request:
  "snd (do_request q w) = w\<lparr>session := snd (session_request q (session w))\<rparr>"
  by (simp add: do_request_def split: prod.splits)

lemma scan_loop_next:
  "scan_loop g m w =
   (case gen_next g (session w) of
      (Inl e, g', s') \<Rightarrow> (Inl e, w\<lparr>session := s'\<rparr>)
    | (Inr None, g', s') \<Rightarrow> (Inr m, w\<lparr>session := s'\<rparr>)
    | (Inr (Some transaction), g', s') \<Rightarrow>
        (case scan_body transaction m (w\<lparr>session := s'\<rparr>) of
           (Inl e, w') \<Rightarrow> (Inl e, w')
         | (Inr m', w') \<Rightarrow> scan_loop g' m' w'))"
proof (induction g arbitrary: w)
  case Nil
  then show ?case by simp
next
  case (Cons ev g)
  show ?case
  proof (cases ev)
    case (Yield t)
    then show ?thesis by simp
  next
    case (Request q)
    then show ?thesis
      using Cons.IH [of "snd (do_request q w)"]
      by (auto simp: snd_do_request split: prod.splits sum.splits option.splits)
  next
    case (Raise e)
    then show ?thesis by simp
  qed
qed

lemma drain_next:
  "drain g s =
   (case gen_next g s of
      (Inl e, g', s') \<Rightarrow> (Inl e, s')
    | (Inr None, g', s') \<Rightarrow> (Inr [], s')
    | (Inr (Some x), g', s') \<Rightarrow>
        (case drain g' s' of (Inl e, s'') \<Rightarrow> (Inl e, s'') | (Inr xs, s'') \<Rightarrow> (Inr (x # xs), s'')))"
  by (induction g s rule: gen_next.induct) simp_all

lemma sent_authenticate:
  "sent (session (snd (authenticate w))) =
   sent (session w) @ [get_request [Lit ''/api/v1/about/user''] []]"
  by (simp add: authenticate_def do_request_def session_request_def
      split: list.splits sum.splits)

lemma session_scan_body [simp]: "session (snd (scan_body t m w)) = session w"
  by (simp add: scan_body_def Let_def split: sum.splits option.splits)

lemma scan_loop_sent:
  "\<exists>qs. sent (session (snd (scan_loop g m w))) = sent (session w) @ qs \<and>
        set qs \<subseteq> {q. Request q \<in> set g}"
proof (induction g m w rule: scan_loop.induct)
  case (1 m w)
  then show ?case by simp
next
  case (2 t g m w)
  show ?case
  proof (cases "scan_body t m w")
    case (Pair res w')
    have s: "session w' = session w"
      using session_scan_body [of t m w] Pair by simp
    show ?thesis
    proof (cases res)
      case (Inl e)
      then show ?thesis using Pair s by simp
    next
      case (Inr m')
      then show ?thesis using Pair s 2 by auto
    qed
  qed
next
  case (3 q g m w)
  then obtain qs where "sent (session (snd (scan_loop g m (snd (do_request q w))))) =
      sent (session (snd (do_request q w))) @ qs" "set qs \<subseteq> {q. Request q \<in> set g}"
    by blast
  then show ?case
    by (intro exI [of _ "q # qs"]) (auto simp: sent_do_request)
next
  case (4 e g m w)
  then show ?case by simp
qed

lemma paginated_requests_get:
  "Request q \<in> set (process_paginated_api_response t r rs) \<Longrightarrow> req_method q = GET"
proof (induction t r rs rule: process_paginated_api_response.induct)
  case (1 expected r rs)
  from "1.prems" show ?case
    apply (subst (asm) process_paginated_api_response.simps)
    apply (auto split: json_outcome.splits option.splits sum.splits list.splits
        simp: get_request_def dest: "1.IH")
    done
qed

lemma flatten_requests: "Request q \<in> set (flatten_pages g) \<Longrightarrow> Request q \<in> set g"
  by (induction g rule: flatten_pages.induct) (auto split: sum.splits)

lemma scanner_requests_get:
  "Request q \<in> set (get_transactions_with_notes account rs) \<Longrightarrow> req_method q = GET"
  by (auto simp: get_transactions_with_notes_def get_request_def split: list.splits
      dest!: flatten_requests paginated_requests_get)

lemma posts_scan: "posts (sent (session (snd (scan account w)))) = posts (sent (session w))"
proof -
  obtain qs where qs: "sent (session (snd (scan account w))) = sent (session w) @ qs"
    "set qs \<subseteq> {q. Request q \<in> set (get_transactions_with_notes account (responses (session w)))}"
    unfolding scan_def using scan_loop_sent by blast
  then have "posts qs = []"
    by (auto simp: posts_def filter_empty_conv dest!: scanner_requests_get)
  with qs show ?thesis by simp
qed

lemma posts_authenticate: "posts (sent (session (snd (authenticate w)))) = posts (sent (session w))"
  by (simp add: sent_authenticate) (simp add: posts_def get_request_def)

lemma rule_creation_for_get: "req_method q = GET \<Longrightarrow> \<not> rule_creation_for name q"
  by (simp add: rule_creation_for_def)




lemmas run_defs =
  main_def authenticate_def scan_def get_transactions_with_notes_def
  process_paginated_api_response.simps process_api_response_def page_transactions_def
  scan_body_def search_notes_def re_search.simps marker_def strip_def is_space_def
  create_fixing_rule_def rule_json_def raise_for_status_def
  do_request_def session_request_def log_call_def FireflySession_def setup_logging_def
  get_request_def post_request_def search_query_def quoted_def
  ok_response_def user_response_def transactions_page_def note_transaction_def
  rule_response_def status_response_def Let_def

text \<open>
  C4. With the dry-run flag set, whatever the ledger answers and whatever the scan
  finds, no POST request is among the requests of the run: the run only issues GETs.
\<close>

theorem dry_run_no_post:
  "posts (sent (session (snd (main set_iter rs verbose firefly_url access_token rule_group True account)))) = []"
proof -
  let ?w0 = "\<lparr>session = FireflySession firefly_url access_token rs,
              log_level = setup_logging verbose, logged = []\<rparr>"
  have p0: "posts (sent (session ?w0)) = []"
    by (simp add: posts_def FireflySession_def)
  obtain a w1 where a: "authenticate ?w0 = (a, w1)" by fastforce
  obtain b w2 where b: "scan account w1 = (b, w2)" by fastforce
  have p1: "posts (sent (session w1)) = []"
    using posts_authenticate [of ?w0] a p0 by simp
  have p2: "posts (sent (session w2)) = []"
    using posts_scan [of account w1] b p1 by simp
  show ?thesis
    using a b p1 p2 by (simp add: main_def Let_def split: sum.splits)
qed

theorem dry_run_no_post_witness:
  "posts (sent (session (snd (example_run True)))) = [] \<and>
   map req_method (sent (session (snd (example_run True)))) = [GET, GET] \<and>
   fst (example_run True) = Inr () \<and>
   fst (scan ''12'' (snd (authenticate
      \<lparr>session = FireflySession ''https://firefly.example/'' ''token''
          [user_response,
           transactions_page
             [note_transaction ''1'' ''Original account name: Acme Corp'',
              note_transaction ''2'' ''Original account name:   Acme Corp  \<newline>second line''] None,
           rule_response ''7'' ''Acme Corp'',
           status_response 204],
        log_level = 40, logged = []\<rparr>))) = Inr {''Acme Corp''}"
proof -
  have "posts (sent (session (snd (example_run True)))) = []"
    unfolding example_run_def by (rule dry_run_no_post)
  then show ?thesis
    by (simp add: example_run_def run_defs)
qed


lemma rule_creation_for_create [simp]:
  "rule_creation_for name
     (post_request [Lit ''/api/v1/rules''] (rule_json account beneficiary rule_group)) =
   (beneficiary = name)"
  by (simp add: rule_creation_for_def post_request_def rule_json_def)

lemma rule_creation_for_trigger [simp]:
  "\<not> rule_creation_for name
     (post_request [Lit ''/api/v1/rules/'', Fmt rule_id, Lit ''/trigger''] body)"
  by (simp add: rule_creation_for_def post_request_def)






section \<open>Malformed items\<close>

lemma getitem_error: "getitem v k = Inl e \<Longrightarrow> lookup_or_type_error e"
  by (cases v) (auto simp: lookup_or_type_error_def split: option.splits)

lemma py_iter_error: "py_iter v = Inl e \<Longrightarrow> lookup_or_type_error e"
  by (cases v) (auto simp: lookup_or_type_error_def)

lemma page_transactions_error: "page_transactions p = Inl e \<Longrightarrow> lookup_or_type_error e"
  by (auto simp: page_transactions_def split: sum.splits dest: getitem_error py_iter_error)

lemma lacks_transactions_error: "lacks_transactions p \<Longrightarrow> \<exists>e. page_transactions p = Inl e"
proof (cases p)
  case (JObj kvs)
  assume l: "lacks_transactions p"
  show ?thesis
  proof (cases "map_of kvs ''attributes''")
    case None
    then show ?thesis using JObj by (simp add: page_transactions_def)
  next
    case (Some a)
    then show ?thesis
      using JObj l by (cases a) (auto simp: page_transactions_def lacks_transactions_def)
  qed
qed (auto simp: page_transactions_def)

lemma scan_body_error: "scan_body t m w = (Inl e, w') \<Longrightarrow> lookup_or_type_error e"
  by (auto simp: scan_body_def search_notes_def Let_def lookup_or_type_error_def
      split: sum.splits option.splits json.splits dest: getitem_error)

lemma malformed_transaction_error:
  "malformed_transaction t \<Longrightarrow> \<exists>e w'. scan_body t m w = (Inl e, w')"
  by (auto simp: malformed_transaction_def scan_body_def search_notes_def Let_def
      split: json.splits option.splits)

lemma well_formed_transaction_ok:
  "\<not> malformed_transaction t \<Longrightarrow> \<exists>m' w'. scan_body t m w = (Inr m', w')"
  by (auto simp: malformed_transaction_def scan_body_def search_notes_def Let_def
      split: json.splits option.splits)

lemma scan_transactions:
  "lookup_abort (scan_loop (map Yield ts @ rest) m w) \<or>
   (\<not> list_ex malformed_transaction ts \<and>
    (\<exists>m' w'. scan_loop (map Yield ts @ rest) m w = scan_loop rest m' w'))"
proof (induction ts arbitrary: m w)
  case Nil
  then show ?case by auto
next
  case (Cons t ts)
  show ?case
  proof (cases "malformed_transaction t")
    case True
    then obtain e w' where e: "scan_body t m w = (Inl e, w')"
      using malformed_transaction_error by blast
    then have "lookup_or_type_error e" by (rule scan_body_error)
    with e show ?thesis by (simp add: lookup_abort_def)
  next
    case False
    then obtain m' w' where "scan_body t m w = (Inr m', w')"
      using well_formed_transaction_ok by blast
    then show ?thesis using Cons.IH [of m' w'] False by auto
  qed
qed

lemma scan_malformed_element:
  assumes "\<forall>e. Raise e \<notin> set pre" and "malformed_element element"
  shows "lookup_abort (scan_loop (flatten_pages (pre @ Yield element # post)) m w)"
  using assms(1)
proof (induction pre arbitrary: m w)
  case Nil
  show ?case
  proof (cases "page_transactions element")
    case (Inl e)
    then show ?thesis
      using page_transactions_error [OF Inl] by (simp add: lookup_abort_def)
  next
    case (Inr ts)
    then have "list_ex malformed_transaction ts"
      using assms(2) lacks_transactions_error [of element] by (auto simp: malformed_element_def)
    then show ?thesis
      using Inr scan_transactions [of ts "flatten_pages post" m w] by auto
  qed
next
  case (Cons ev pre)
  then have IH: "\<And>m w. lookup_abort (scan_loop (flatten_pages (pre @ Yield element # post)) m w)"
    by simp
  show ?case
  proof (cases ev)
    case (Yield p)
    show ?thesis
    proof (cases "page_transactions p")
      case (Inl e)
      then show ?thesis
        using Yield page_transactions_error [OF Inl] by (simp add: lookup_abort_def)
    next
      case (Inr ts)
      then show ?thesis
        using Yield IH scan_transactions [of ts "flatten_pages (pre @ Yield element # post)" m w]
        by auto
    qed
  next
    case (Request q)
    then show ?thesis using IH by simp
  next
    case (Raise e)
    then show ?thesis using Cons.prems by auto
  qed
qed

lemma raise_last_yields [simp]: "raise_last (map Yield xs @ g) = raise_last g"
  by (induction xs) auto

lemma raise_last_only_yields [simp]: "raise_last (map Yield xs)"
  by (induction xs) auto

lemma raise_last_paginated: "raise_last (process_paginated_api_response t r rs)"
proof (induction t r rs rule: process_paginated_api_response.induct)
  case (1 expected r rs)
  show ?case
    by (subst process_paginated_api_response.simps)
      (auto split: json_outcome.splits option.splits sum.splits list.splits intro: "1.IH")
qed

lemma raise_last_prefix: "raise_last (pre @ ev # post) \<Longrightarrow> Raise e \<notin> set pre"
  by (induction pre rule: raise_last.induct) auto

text \<open>
  C10. The page elements are only validated as dicts. When the paginated decoder
  yields an element that has no \<open>attributes\<close>, or whose attributes have no
  \<open>transactions\<close>, or one of whose transactions has no \<open>transaction_journal_id\<close>, no
  \<open>notes\<close> or notes that are not a string, the run ends with a \<open>KeyError\<close> or a
  \<open>TypeError\<close>: not with a \<open>ValidationError\<close>, and the item is not skipped.
\<close>

theorem malformed_item_aborts:
  assumes "authenticate \<lparr>session = FireflySession firefly_url access_token rs,
             log_level = setup_logging verbose, logged = []\<rparr> = (Inr (), w1)"
    and "responses (session w1) = r # rs'"
    and "process_paginated_api_response TDict r rs' = pre @ Yield element # post"
    and "malformed_element element"
  shows "lookup_abort
           (main set_iter rs verbose firefly_url access_token rule_group dry_run account)"
proof -
  let ?q = "get_request [Lit ''/api/v1/search/transactions''] [(''query'', search_query account)]"
  have "raise_last (pre @ Yield element # post)"
    using raise_last_paginated [of TDict r rs'] assms(3) by simp
  then have "\<forall>e. Raise e \<notin> set pre"
    using raise_last_prefix by blast
  then have "lookup_abort (scan_loop (flatten_pages (pre @ Yield element # post)) {}
               (snd (do_request ?q w1)))"
    using assms(4) by (rule scan_malformed_element)
  then have "lookup_abort (scan account w1)"
    using assms(2,3) by (simp add: scan_def get_transactions_with_notes_def)
  then obtain e w2 where "scan account w1 = (Inl e, w2)" "lookup_or_type_error e"
    by (cases "scan account w1") (auto simp: lookup_abort_def split: sum.splits)
  then show ?thesis
    using assms(1) by (simp add: main_def lookup_abort_def)
qed

theorem malformed_item_aborts_witness:
  "lookup_abort (malformed_run (JObj [(''id'', JStr ''1'')])) \<and>
   fst (malformed_run (JObj [(''id'', JStr ''1'')])) = Inl (KeyError ''attributes'') \<and>
   fst (malformed_run (JObj [(''attributes'', JObj [(''transactions'',
          JArr [JObj [(''transaction_journal_id'', JStr ''1''), (''notes'', JNull)]])])])) =
     Inl TypeError"
proof -
  let ?element = "JObj [(''id'', JStr ''1'')]"
  let ?rs = "[user_response, elements_page [?element]]"
  let ?w0 = "\<lparr>session = FireflySession ''https://firefly.example/'' ''token'' ?rs,
              log_level = setup_logging 0, logged = []\<rparr>"
  have "fst (authenticate ?w0) = Inr ()"
    by (simp add: run_defs)
  then have h1: "authenticate ?w0 = (Inr (), snd (authenticate ?w0))"
    by (simp add: prod_eq_iff)
  have h2: "responses (session (snd (authenticate ?w0))) = elements_page [?element] # []"
    by (simp add: run_defs)
  have h3: "process_paginated_api_response TDict (elements_page [?element]) [] =
            [] @ Yield ?element # []"
    by (simp add: run_defs elements_page_def)
  have h4: "malformed_element ?element"
    by (simp add: malformed_element_def lacks_transactions_def)
  have "lookup_abort (malformed_run ?element)"
    unfolding malformed_run_def by (rule malformed_item_aborts [OF h1 h2 h3 h4])
  then show ?thesis
    by (simp add: malformed_run_def run_defs elements_page_def)
qed

section \<open>Properties of the paginated decoder\<close>

lemma process_api_response_data:
  assumes "json_body r = Parsed (JObj kvs)"
    and "map_of kvs ''data'' = Some x"
    and "\<not> textual_error_envelope kvs"
  shows "process_api_response r t = (if conforms t x then Inr x else Inl ValidationError)"
  using assms
  by (simp add: process_api_response_def match_error_envelope_None validate_python_conforms
      del: match_error_envelope.simps)

lemma page_sequence_cases:
  assumes "page_sequence t r rs ((items, next) # pages)"
  obtains kvs where "json_body r = Parsed (JObj kvs)" "\<not> textual_error_envelope kvs"
    "map_of kvs ''data'' = Some (JArr items)" "list_all (conforms t) items"
    "match_next_link (JObj kvs) = next"
    "(next = None \<and> pages = []) \<or>
     (\<exists>u r' rs'. next = Some u \<and> rs = r' # rs' \<and> page_sequence t r' rs' pages)"
  using assms by (auto split: json_outcome.splits option.splits json.splits list.splits)

lemma paginated_trace:
  "page_sequence t r rs pages \<Longrightarrow> process_paginated_api_response t r rs = page_trace pages"
proof (induction pages arbitrary: r rs)
  case Nil
  then show ?case by simp
next
  case (Cons p pages)
  obtain items "next" where p: "p = (items, next)" by (cases p)
  from Cons.prems [unfolded p] obtain kvs where
    k: "json_body r = Parsed (JObj kvs)" "\<not> textual_error_envelope kvs"
    "map_of kvs ''data'' = Some (JArr items)" "list_all (conforms t) items"
    "match_next_link (JObj kvs) = next" and
    c: "(next = None \<and> pages = []) \<or>
     (\<exists>u r' rs'. next = Some u \<and> rs = r' # rs' \<and> page_sequence t r' rs' pages)"
    by (rule page_sequence_cases)
  have d: "process_api_response r (TList t) = Inr (JArr items)"
    using process_api_response_data [OF k(1) k(3) k(2), of "TList t"] k(4) by simp
  from c show ?case
  proof
    assume "next = None \<and> pages = []"
    then show ?thesis
      using k d p by (subst process_paginated_api_response.simps) (simp del: match_next_link.simps)
  next
    assume "\<exists>u r' rs'. next = Some u \<and> rs = r' # rs' \<and> page_sequence t r' rs' pages"
    then obtain u r' rs' where n: "next = Some u" "rs = r' # rs'" "page_sequence t r' rs' pages"
      by blast
    then show ?thesis
      using k d p Cons.IH [OF n(3)]
      by (subst process_paginated_api_response.simps) (simp del: match_next_link.simps)
  qed
qed

lemma page_sequence_linked:
  "page_sequence t r rs ((items, next) # pages) \<Longrightarrow>
   (next = None \<and> pages = []) \<or>
   (\<exists>u r' rs'. next = Some u \<and> page_sequence t r' rs' pages)"
  by (erule page_sequence_cases) auto

lemma drain_yields:
  "drain (map Yield xs @ g) s =
   (case drain g s of (Inl e, s') \<Rightarrow> (Inl e, s') | (Inr ys, s') \<Rightarrow> (Inr (xs @ ys), s'))"
  by (induction xs) (auto split: prod.splits sum.splits)

lemma drain_only_yields [simp]: "drain (map Yield xs) s = (Inr xs, s)"
  using drain_yields [of xs "[]" s] by simp

lemma sent_session_request [simp]: "sent (snd (session_request q s)) = sent s @ [q]"
  by (simp add: session_request_def split: list.splits)

lemma drain_trace:
  "page_sequence t r rs pages \<Longrightarrow>
   fst (drain (page_trace pages) s) = Inr (concat (map fst pages)) \<and>
   sent (snd (drain (page_trace pages) s)) = sent s @ next_requests pages"
proof (induction pages arbitrary: r rs s)
  case Nil
  then show ?case by simp
next
  case (Cons p pages)
  obtain items "next" where p: "p = (items, next)" by (cases p)
  from page_sequence_linked [OF Cons.prems [unfolded p]] show ?case
  proof
    assume "next = None \<and> pages = []"
    then show ?thesis using p by (simp add: drain_yields)
  next
    assume "\<exists>u r' rs'. next = Some u \<and> page_sequence t r' rs' pages"
    then obtain u r' rs' where n: "next = Some u" "page_sequence t r' rs' pages"
      by blast
    from Cons.IH [OF n(2), of "snd (session_request (get_request [Lit u] []) s)"]
    show ?thesis using p n(1)
      by (auto simp: drain_yields split: prod.splits sum.splits)
  qed
qed

lemma pull_yields:
  "pull n (map Yield xs @ g) s =
   (if n \<le> length xs then (take n xs, map Yield (drop n xs) @ g, s)
    else (case pull (n - length xs) g s of (ys, g', s') \<Rightarrow> (xs @ ys, g', s')))"
proof (induction xs arbitrary: n)
  case Nil
  then show ?case by (cases n) (auto split: prod.splits)
next
  case (Cons x xs)
  show ?case
  proof (cases n)
    case 0
    then show ?thesis by simp
  next
    case (Suc m)
    then show ?thesis using Cons.IH [of m] by (auto split: prod.splits)
  qed
qed

lemma pull_Nil [simp]: "pull n [] s = ([], [], s)"
  by (cases n) auto

lemma pull_only_yields [simp]:
  "pull n (map Yield xs) s = (take n xs, map Yield (drop n xs), s)"
  using pull_yields [of n xs "[]" s] by simp

lemma pull_request:
  "pull (Suc n) (Request q # g) s = pull (Suc n) g (snd (session_request q s))"
  by simp

lemma pull_trace:
  "page_sequence t r rs pages \<Longrightarrow>
   fst (pull n (page_trace pages) s) = take n (concat (map fst pages))"
proof (induction pages arbitrary: r rs s n)
  case Nil
  then show ?case by simp
next
  case (Cons p pages)
  obtain items "next" where p: "p = (items, next)" by (cases p)
  show ?case
  proof (cases "n \<le> length items")
    case True
    then show ?thesis using p by (simp add: pull_yields)
  next
    case False
    then obtain m where m: "n - length items = Suc m"
      by (cases "n - length items") auto
    from page_sequence_linked [OF Cons.prems [unfolded p]] show ?thesis
    proof
      assume "next = None \<and> pages = []"
      then show ?thesis using p False m by (simp add: pull_yields)
    next
      assume "\<exists>u r' rs'. next = Some u \<and> page_sequence t r' rs' pages"
      then obtain u r' rs' where n: "next = Some u" "page_sequence t r' rs' pages"
        by blast
      from Cons.IH [OF n(2), of "Suc m" "snd (session_request (get_request [Lit u] []) s)"]
      show ?thesis using p n(1) False m
        by (auto simp: pull_yields pull_request simp del: pull.simps split: prod.splits)
    qed
  qed
qed

lemma pull_lazy:
  "page_sequence t r rs pages \<Longrightarrow>
   n \<le> length (concat (map fst (take (Suc j) pages))) \<Longrightarrow>
   length (sent (snd (snd (pull n (page_trace pages) s)))) \<le> length (sent s) + j"
proof (induction pages arbitrary: r rs s n j)
  case Nil
  then show ?case by simp
next
  case (Cons p pages)
  obtain items "next" where p: "p = (items, next)" by (cases p)
  show ?case
  proof (cases "n \<le> length items")
    case True
    then show ?thesis using p by (simp add: pull_yields)
  next
    case False
    then obtain m where m: "n - length items = Suc m"
      by (cases "n - length items") auto
    from page_sequence_linked [OF Cons.prems(1) [unfolded p]] show ?thesis
    proof
      assume "next = None \<and> pages = []"
      then show ?thesis using p False m by (simp add: pull_yields)
    next
      assume "\<exists>u r' rs'. next = Some u \<and> page_sequence t r' rs' pages"
      then obtain u r' rs' where n: "next = Some u" "page_sequence t r' rs' pages"
        by blast
      from Cons.prems(2) False p obtain j' where j: "j = Suc j'"
        by (cases j) auto
      with Cons.prems(2) p m have "Suc m \<le> length (concat (map fst (take (Suc j') pages)))"
        by simp
      from Cons.IH [OF n(2) this, of "snd (session_request (get_request [Lit u] []) s)"]
      show ?thesis using p n(1) False m j
        by (auto simp: pull_yields pull_request simp del: pull.simps split: prod.splits)
    qed
  qed
qed

text \<open>
  C1. On a sequence of pages, the paginated decoder does exactly this: it yields the
  items of the first page, then issues the GET of its link, then yields the items of
  the second page, and so on. Driven to its end it yields the concatenation of the
  pages' items, in page order then in the order of each page, and has issued the GETs
  of the links in order. Driven for \<open>n\<close> items only, it yields the first \<open>n\<close> of them,
  and as long as \<open>n\<close> is not more than the number of items of the first \<open>j + 1\<close> pages
  it has issued at most \<open>j\<close> GETs: the page after the current one is only fetched
  when the consumer asks for an item beyond the current page.
\<close>

theorem lazy_pagination:
  assumes "page_sequence t r rs pages"
  shows "process_paginated_api_response t r rs = page_trace pages \<and>
         fst (drain (process_paginated_api_response t r rs) s) = Inr (concat (map fst pages)) \<and>
         sent (snd (drain (process_paginated_api_response t r rs) s)) =
           sent s @ next_requests pages \<and>
         (\<forall>n. fst (pull n (process_paginated_api_response t r rs) s) =
                take n (concat (map fst pages))) \<and>
         (\<forall>n j. n \<le> length (concat (map fst (take (Suc j) pages))) \<longrightarrow>
                length (sent (snd (snd (pull n (process_paginated_api_response t r rs) s))))
                  \<le> length (sent s) + j)"
  using paginated_trace [OF assms] drain_trace [OF assms] pull_trace [OF assms]
    pull_lazy [OF assms]
  by simp

theorem lazy_pagination_witness:
  "fst (drain three_pages three_pages_session) =
     Inr [item ''a'', item ''b'', item ''c'', item ''d'', item ''e''] \<and>
   sent (snd (drain three_pages three_pages_session)) =
     [get_request [Lit ''/page2''] [], get_request [Lit ''/page3''] []] \<and>
   pull 2 three_pages three_pages_session =
     ([item ''a'', item ''b''],
      [Request (get_request [Lit ''/page2''] []), Yield (item ''c''),
       Request (get_request [Lit ''/page3''] []), Yield (item ''d''), Yield (item ''e'')],
      three_pages_session) \<and>
   fst (pull 3 three_pages three_pages_session) = [item ''a'', item ''b'', item ''c''] \<and>
   sent (snd (snd (pull 3 three_pages three_pages_session))) =
     [get_request [Lit ''/page2''] []]"
proof -
  let ?pages = "[([item ''a'', item ''b''], Some ''/page2''), ([item ''c''], Some ''/page3''),
                 ([item ''d'', item ''e''], None)]"
  have h: "page_sequence TDict
       (items_page [item ''a'', item ''b''] (Some ''/page2''))
       [items_page [item ''c''] (Some ''/page3''), items_page [item ''d'', item ''e''] None]
       ?pages"
    by (simp add: items_page_def ok_response_def item_def textual_error_envelope_def)
  have t: "three_pages = page_trace ?pages"
    unfolding three_pages_def using lazy_pagination [OF h] by blast
  show ?thesis
    unfolding t
    by (simp add: numeral_2_eq_2 numeral_3_eq_3 session_request_def three_pages_session_def
        FireflySession_def)
qed

end
